theory Spec2Isabelle
  imports Main "HOL-Library.Word" "HOL-Library.Sublist"
begin

section \<open>The command IP source of caddy-dynamicdns\<close>

text \<open>
  A shallow embedding of \<^verbatim>\<open>command.go\<close>: the module \<^verbatim>\<open>Command\<close>, its
  \<^verbatim>\<open>Provision\<close> and its \<^verbatim>\<open>GetIPs\<close>. What \<^verbatim>\<open>GetIPs\<close> obtains from outside the
  repository (the placeholder replacer of caddy, the operating system that runs the
  process, the address parser of \<^verbatim>\<open>net/netip\<close>) is an explicit environment.
\<close>

subsection \<open>Go strings: \<^verbatim>\<open>strings.TrimSpace\<close> and \<^verbatim>\<open>strings.Split\<close>\<close>

text \<open>
  A Go string is a sequence of bytes. \<^verbatim>\<open>strings.TrimSpace\<close> removes leading and trailing
  white space "as defined by Unicode": it decodes UTF-8 from either end and stops at the
  first rune that \<^verbatim>\<open>unicode.IsSpace\<close> rejects. The runes accepted are U+0009..U+000D,
  U+0020, U+0085, U+00A0, U+1680, U+2000..U+200A, U+2028, U+2029, U+202F, U+205F and
  U+3000; \<open>spaces\<close> lists their UTF-8 encodings.
\<close>

definition spaces :: "string list" where
  "spaces =
    [[CHR 0x09], [CHR 0x0A], [CHR 0x0B], [CHR 0x0C], [CHR 0x0D], [CHR 0x20],
     [CHR 0xC2, CHR 0x85], [CHR 0xC2, CHR 0xA0],
     [CHR 0xE1, CHR 0x9A, CHR 0x80],
     [CHR 0xE2, CHR 0x80, CHR 0x80], [CHR 0xE2, CHR 0x80, CHR 0x81],
     [CHR 0xE2, CHR 0x80, CHR 0x82], [CHR 0xE2, CHR 0x80, CHR 0x83],
     [CHR 0xE2, CHR 0x80, CHR 0x84], [CHR 0xE2, CHR 0x80, CHR 0x85],
     [CHR 0xE2, CHR 0x80, CHR 0x86], [CHR 0xE2, CHR 0x80, CHR 0x87],
     [CHR 0xE2, CHR 0x80, CHR 0x88], [CHR 0xE2, CHR 0x80, CHR 0x89],
     [CHR 0xE2, CHR 0x80, CHR 0x8A],
     [CHR 0xE2, CHR 0x80, CHR 0xA8], [CHR 0xE2, CHR 0x80, CHR 0xA9],
     [CHR 0xE2, CHR 0x80, CHR 0xAF],
     [CHR 0xE2, CHR 0x81, CHR 0x9F],
     [CHR 0xE3, CHR 0x80, CHR 0x80]]"

text \<open>The white-space rune a text starts with, and the one it ends with, if any.\<close>

definition leadingSpace :: "string \<Rightarrow> string option" where
  "leadingSpace s = find (\<lambda>e. prefix e s) spaces"

definition trailingSpace :: "string \<Rightarrow> string option" where
  "trailingSpace s = find (\<lambda>e. suffix e s) spaces"

function TrimLeft :: "string \<Rightarrow> string" where
  "TrimLeft s =
     (case leadingSpace s of
        None \<Rightarrow> s
      | Some e \<Rightarrow> TrimLeft (drop (length e) s))"
  by pat_completeness auto
termination
proof (relation "measure length")
  show "wf (measure length)" by simp
next
  fix s e :: string
  assume "leadingSpace s = Some e"
  then have mem: "e \<in> set spaces" and pre: "prefix e s"
    by (auto simp: leadingSpace_def find_Some_iff)
  from mem have "e \<noteq> []" by (auto simp: spaces_def)
  with pre have "length (drop (length e) s) < length s"
    by (cases s) (auto simp: prefix_def)
  then show "(drop (length e) s, s) \<in> measure length" by simp
qed

function TrimRight :: "string \<Rightarrow> string" where
  "TrimRight s =
     (case trailingSpace s of
        None \<Rightarrow> s
      | Some e \<Rightarrow> TrimRight (take (length s - length e) s))"
  by pat_completeness auto
termination
proof (relation "measure length")
  show "wf (measure length)" by simp
next
  fix s e :: string
  assume "trailingSpace s = Some e"
  then have mem: "e \<in> set spaces" and suf: "suffix e s"
    by (auto simp: trailingSpace_def find_Some_iff)
  from mem have "e \<noteq> []" by (auto simp: spaces_def)
  with suf have "length (take (length s - length e) s) < length s"
    by (cases s) (auto simp: suffix_def)
  then show "(take (length s - length e) s, s) \<in> measure length" by simp
qed

declare TrimLeft.simps [simp del] TrimRight.simps [simp del]

definition TrimSpace :: "string \<Rightarrow> string" where
  "TrimSpace s = TrimRight (TrimLeft s)"

text \<open>
  \<^verbatim>\<open>strings.Split(s, sep)\<close> for a separator of one byte: the pieces between the
  separators, so one piece more than there are separators; the empty text gives the one
  empty piece.
\<close>

fun Split :: "string \<Rightarrow> char \<Rightarrow> string list" where
  "Split [] sep = [[]]"
| "Split (c # cs) sep =
     (if c = sep then [] # Split cs sep
      else (case Split cs sep of
              [] \<Rightarrow> [[c]]
            | t # ts \<Rightarrow> (c # t) # ts))"

subsection \<open>Addresses and the settings of the caller\<close>

text \<open>
  \<^verbatim>\<open>netip.Addr\<close> as \<^verbatim>\<open>netip.ParseAddr\<close> returns it with a nil error: an IPv4 address
  of 32 bits, or an IPv6 address of 128 bits with its zone (empty when there is none). The
  zero \<^verbatim>\<open>Addr\<close>, which is neither, only comes with an error.
\<close>

datatype addr = Addr4 "32 word" | Addr6 "128 word" string

fun Is4 :: "addr \<Rightarrow> bool" where
  "Is4 (Addr4 _) = True"
| "Is4 (Addr6 _ _) = False"

fun Is6 :: "addr \<Rightarrow> bool" where
  "Is6 (Addr4 _) = False"
| "Is6 (Addr6 _ _) = True"

text \<open>
  \<^verbatim>\<open>dynamicdns.IPSettings\<close>: the two family switches are pointers to a boolean, nil
  meaning enabled (the tests build them so in \<^verbatim>\<open>createIPSettings\<close>); the range policy
  is the method \<^verbatim>\<open>Contains\<close>.
\<close>

record IPSettings =
  IPv4 :: "bool option"
  IPv6 :: "bool option"
  Contains :: "addr \<Rightarrow> bool"

definition V4Enabled :: "IPSettings \<Rightarrow> bool" where
  "V4Enabled s = (case IPv4 s of None \<Rightarrow> True | Some b \<Rightarrow> b)"

definition V6Enabled :: "IPSettings \<Rightarrow> bool" where
  "V6Enabled s = (case IPv6 s of None \<Rightarrow> True | Some b \<Rightarrow> b)"

subsection \<open>The module and its provisioning\<close>

text \<open>\<^verbatim>\<open>caddy.Duration\<close> is an \<^verbatim>\<open>int64\<close> of nanoseconds.\<close>

type_synonym Duration = "64 word"

definition Second :: Duration where
  "Second = 1000000000"

datatype Logger = Logger

record Command =
  Cmd :: string
  Args :: "string list"
  Dir :: string
  Timeout :: "Duration option"
  logger :: "Logger option"

definition Provision :: "Logger \<Rightarrow> Command \<Rightarrow> Command" where
  "Provision ctxLogger c =
     (let c = c\<lparr>logger := Some ctxLogger\<rparr> in
      if (case Timeout c of None \<Rightarrow> True | Some t \<Rightarrow> t \<le>s 0)
      then c\<lparr>Timeout := Some (30 * Second)\<rparr>
      else c)"

text \<open>The older copy of the module keeps the timeout by value.\<close>

record LegacyCommand =
  LCmd :: string
  LArgs :: "string list"
  LDir :: string
  LTimeout :: Duration
  Llogger :: "Logger option"

definition Provision_legacy :: "Logger \<Rightarrow> LegacyCommand \<Rightarrow> LegacyCommand" where
  "Provision_legacy ctxLogger c =
     (let c = c\<lparr>Llogger := Some ctxLogger\<rparr> in
      if LTimeout c \<le>s 0 then c\<lparr>LTimeout := 30 * Second\<rparr> else c)"

subsection \<open>The environment of \<^verbatim>\<open>GetIPs\<close>\<close>

text \<open>
  The context handed to \<^verbatim>\<open>exec.CommandContext\<close>: the caller's, or one derived from
  it by \<^verbatim>\<open>context.WithTimeout\<close>.
\<close>

datatype ctx = Background | WithCancel ctx | WithTimeout ctx Duration

text \<open>The \<^verbatim>\<open>exec.Cmd\<close> that lines 104 to 107 build.\<close>

record execCmd =
  ex_name :: string
  ex_args :: "string list"
  ex_dir :: string
  ex_ctx :: ctx

text \<open>
  What became of the process: it could not be started (the text says why), it ran and
  exited with a status, or a signal terminated it (as the kill that a finished context
  sends). The two buffers hold what it wrote.
\<close>

datatype outcome = NotStarted string | Exited int | Killed

record execution =
  outcome :: outcome
  stdout :: string
  stderr :: string

text \<open>
  \<^verbatim>\<open>os/exec\<close>, \<^verbatim>\<open>Cmd.Run\<close>: "The returned error is nil if the command runs, has no
  problems copying stdin, stdout, and stderr, and exits with a zero exit status. If the
  command starts but does not complete successfully, the error is of type
  \<^verbatim>\<open>*ExitError\<close>." The text of an \<^verbatim>\<open>*ExitError\<close> is the process state,
  \<^verbatim>\<open>exit status 3\<close> or \<^verbatim>\<open>signal: killed\<close>. \<^verbatim>\<open>ProcessState.ExitCode\<close> is the exit
  status, and -1 for a process that has not exited or that a signal terminated.
\<close>

datatype runError = StartError string | ExitError int | SignalError

fun Run_error :: "outcome \<Rightarrow> runError option" where
  "Run_error (NotStarted why) = Some (StartError why)"
| "Run_error (Exited n) = (if n = 0 then None else Some (ExitError n))"
| "Run_error Killed = Some SignalError"

fun ExitCode :: "outcome \<Rightarrow> int" where
  "ExitCode (NotStarted why) = - 1"
| "ExitCode (Exited n) = n"
| "ExitCode Killed = - 1"

text \<open>
  The collaborators from outside the repository: \<^verbatim>\<open>ReplaceAll\<close> of caddy's replacer
  (the input and the value for an empty placeholder), the operating system behind
  \<^verbatim>\<open>cmd.Run\<close>, \<^verbatim>\<open>netip.ParseAddr\<close> (\<open>None\<close> for an error) and \<^verbatim>\<open>Addr.String\<close>.
\<close>

record env =
  ReplaceAll :: "string \<Rightarrow> string \<Rightarrow> string"
  Run :: "execCmd \<Rightarrow> execution"
  ParseAddr :: "string \<Rightarrow> addr option"
  AddrString :: "addr \<Rightarrow> string"

subsection \<open>Errors, log entries and results\<close>

datatype error =
    RunError runError
  | ExitedWith string int
  | InvalidIP string
  | ParseAddrError string

text \<open>
  \<open>RunError\<close> is the error of \<^verbatim>\<open>cmd.Run\<close> returned as it is; \<open>ExitedWith cmd n\<close> is
  \<^verbatim>\<open>fmt.Errorf("command %s exited with: %d", c.Cmd, exitCode)\<close>; \<open>InvalidIP t\<close> is
  \<^verbatim>\<open>fmt.Errorf("invalid IP: %s", ipStr)\<close>; \<open>ParseAddrError t\<close> is the error of
  \<^verbatim>\<open>netip.ParseAddr\<close> on \<open>t\<close>, which is only logged.
\<close>

datatype level = DebugLevel | WarnLevel | ErrorLevel

datatype field =
    zString string string
  | zStrings string "string list"
  | zInt string int
  | zInt64 string int
  | zError error

type_synonym entry = "level \<times> string \<times> field list"

text \<open>
  A call either panics on a nil pointer (the timeout read at line 113, or the logger) or
  returns Go's pair: an error and no list, or a list and no error.
\<close>

datatype nilptr = NilTimeout | NilLogger

datatype 'a result = Panic nilptr | Return "error + 'a list"

subsection \<open>\<^verbatim>\<open>GetIPs\<close>\<close>

definition expandedArgs :: "env \<Rightarrow> Command \<Rightarrow> string list" where
  "expandedArgs e c = map (\<lambda>a. ReplaceAll e a []) (Args c)"

definition runCtx :: "ctx \<Rightarrow> Command \<Rightarrow> ctx" where
  "runCtx cx c =
     (case Timeout c of
        None \<Rightarrow> cx
      | Some t \<Rightarrow> if 0 <s t then WithTimeout cx t else cx)"

definition CommandContext :: "env \<Rightarrow> ctx \<Rightarrow> Command \<Rightarrow> execCmd" where
  "CommandContext e cx c =
     \<lparr>ex_name = Cmd c, ex_args = expandedArgs e c, ex_dir = Dir c, ex_ctx = runCtx cx c\<rparr>"

text \<open>The loop of lines 148 to 179 over the pieces that are left, with the list and the log so far.\<close>

fun parseLoop ::
  "env \<Rightarrow> Command \<Rightarrow> IPSettings \<Rightarrow> string \<Rightarrow> string list \<Rightarrow> addr list \<Rightarrow> entry list
     \<Rightarrow> entry list \<times> (error + addr list)" where
  "parseLoop e c settings text [] out lg = (lg, Inr out)"
| "parseLoop e c settings text (piece # ipArr) out lg =
     (let ipStr = TrimSpace piece in
      if ipStr = [] then parseLoop e c settings text ipArr out lg
      else
        (case ParseAddr e ipStr of
           None \<Rightarrow>
             (lg @ [(ErrorLevel, ''parsing IP failed'',
                     [zString ''command'' (Cmd c), zStrings ''args'' (expandedArgs e c),
                      zString ''stdout'' text, zString ''ip'' ipStr,
                      zError (ParseAddrError ipStr)])],
              Inl (InvalidIP ipStr))
         | Some addr \<Rightarrow>
             if V4Enabled settings \<and> Is4 addr \<and> Contains settings addr then
               parseLoop e c settings text ipArr (out @ [addr])
                 (lg @ [(DebugLevel, ''parsed IPv4 successfully'',
                         [zString ''command'' (Cmd c), zStrings ''args'' (expandedArgs e c),
                          zString ''ip'' (AddrString e addr)])])
             else if V6Enabled settings \<and> Is6 addr \<and> Contains settings addr then
               parseLoop e c settings text ipArr (out @ [addr])
                 (lg @ [(DebugLevel, ''parsed IPv6 successfully'',
                         [zString ''command'' (Cmd c), zStrings ''args'' (expandedArgs e c),
                          zString ''ip'' (AddrString e addr)])])
             else parseLoop e c settings text ipArr out lg))"

definition GetIPs ::
  "env \<Rightarrow> ctx \<Rightarrow> Command \<Rightarrow> IPSettings \<Rightarrow> entry list \<times> addr result" where
  "GetIPs e cx c settings =
     (let cmd = CommandContext e cx c in
      case Timeout c of
        None \<Rightarrow> ([], Panic NilTimeout)
      | Some t \<Rightarrow>
     (case logger c of
        None \<Rightarrow> ([], Panic NilLogger)
      | Some _ \<Rightarrow>
     (let lg = [(DebugLevel, ''running command'',
                 [zString ''command'' (Cmd c), zStrings ''args'' (expandedArgs e c),
                  zString ''dir'' (Dir c), zInt64 ''timeout'' (sint t)])];
          r = Run e cmd
      in
      case Run_error (outcome r) of
        Some err \<Rightarrow>
          (lg @ [(ErrorLevel, ''command execution failed'',
                  [zString ''command'' (Cmd c), zStrings ''args'' (expandedArgs e c),
                   zString ''dir'' (Dir c), zString ''stdout'' (stdout r),
                   zString ''stderr'' (stderr r), zError (RunError err)])],
           Return (Inl (RunError err)))
      | None \<Rightarrow>
     (let exitCode = ExitCode (outcome r) in
      if exitCode \<noteq> 0 then
        (lg @ [(ErrorLevel, ''command execution failed'',
                [zString ''command'' (Cmd c), zStrings ''args'' (expandedArgs e c),
                 zString ''dir'' (Dir c), zString ''stdout'' (stdout r),
                 zString ''stderr'' (stderr r), zInt ''exit_code'' exitCode])],
         Return (Inl (ExitedWith (Cmd c) exitCode)))
      else
     (let lg = (if length (stderr r) > 0
                then lg @ [(WarnLevel, ''command produced stderr output'',
                            [zString ''command'' (Cmd c), zString ''stderr'' (stderr r)])]
                else lg);
          ipArr = Split (TrimSpace (stdout r)) (CHR '','')
      in
      case parseLoop e c settings (stdout r) ipArr [] lg of
        (lg, res) \<Rightarrow> (lg, Return res))))))"

subsection \<open>The older copy of \<^verbatim>\<open>GetIPs\<close>\<close>

text \<open>
  The second copy of the module in \<^verbatim>\<open>command.go\<close> (lines 273 to 347) parses with
  \<^verbatim>\<open>net.ParseIP\<close> (a byte slice, nil for a text that is no address), filters nothing,
  and takes any output on the standard error for a failure.
\<close>

type_synonym IP = "8 word list"

record legacy_env =
  LReplaceAll :: "string \<Rightarrow> string \<Rightarrow> string"
  LRun :: "execCmd \<Rightarrow> execution"
  ParseIP :: "string \<Rightarrow> IP option"
  IPString :: "IP \<Rightarrow> string"

definition expandedArgs_legacy :: "legacy_env \<Rightarrow> LegacyCommand \<Rightarrow> string list" where
  "expandedArgs_legacy e c = map (\<lambda>a. LReplaceAll e a []) (LArgs c)"

definition CommandContext_legacy :: "legacy_env \<Rightarrow> ctx \<Rightarrow> LegacyCommand \<Rightarrow> execCmd" where
  "CommandContext_legacy e cx c =
     \<lparr>ex_name = LCmd c, ex_args = expandedArgs_legacy e c, ex_dir = LDir c,
      ex_ctx = (if 0 <s LTimeout c then WithTimeout cx (LTimeout c) else cx)\<rparr>"

fun parseLoop_legacy ::
  "legacy_env \<Rightarrow> LegacyCommand \<Rightarrow> string \<Rightarrow> string list \<Rightarrow> IP list \<Rightarrow> entry list
     \<Rightarrow> entry list \<times> (error + IP list)" where
  "parseLoop_legacy e c text [] out lg = (lg, Inr out)"
| "parseLoop_legacy e c text (piece # ipArr) out lg =
     (case ParseIP e (TrimSpace piece) of
        None \<Rightarrow>
          (lg @ [(ErrorLevel, ''parsing ip failed'',
                  [zString ''command'' (LCmd c), zStrings ''args'' (expandedArgs_legacy e c),
                   zString ''stdout'' text, zString ''ip'' piece])],
           Inl (InvalidIP piece))
      | Some ip \<Rightarrow>
          parseLoop_legacy e c text ipArr (out @ [ip])
            (lg @ [(DebugLevel, ''parsed ip succesfull'',
                    [zString ''command'' (LCmd c), zStrings ''args'' (expandedArgs_legacy e c),
                     zString ''stdout'' text, zString ''ip'' (IPString e ip)])]))"

definition GetIPs_legacy ::
  "legacy_env \<Rightarrow> ctx \<Rightarrow> LegacyCommand \<Rightarrow> entry list \<times> IP result" where
  "GetIPs_legacy e cx c =
     (let cmd = CommandContext_legacy e cx c in
      case Llogger c of
        None \<Rightarrow> ([], Panic NilLogger)
      | Some _ \<Rightarrow>
     (let lg = [(DebugLevel, ''running command'',
                 [zString ''command'' (LCmd c), zStrings ''args'' (expandedArgs_legacy e c),
                  zString ''dir'' (LDir c), zInt64 ''timeout'' (sint (LTimeout c))])];
          r = LRun e cmd
      in
      case Run_error (outcome r) of
        Some err \<Rightarrow> (lg, Return (Inl (RunError err)))
      | None \<Rightarrow>
     (let exitCode = ExitCode (outcome r) in
      if exitCode \<noteq> 0 \<or> length (stderr r) > 0 then
        (lg @ [(ErrorLevel, ''command execution failed'',
                [zString ''command'' (LCmd c), zStrings ''args'' (expandedArgs_legacy e c),
                 zString ''dir'' (LDir c), zString ''stdout'' (stdout r),
                 zString ''stderr'' (stderr r), zInt ''exit code'' exitCode])],
         Return (Inl (ExitedWith (LCmd c) exitCode)))
      else
        (case parseLoop_legacy e c (stdout r) (Split (stdout r) (CHR '','')) [] lg of
           (lg, res) \<Rightarrow> (lg, Return res)))))"

subsection \<open>Notions of the specification\<close>

text \<open>
  The pieces of the output that reach \<^verbatim>\<open>netip.ParseAddr\<close> (lines 147 to 152): the
  trimmed output is split at the commas, every piece is trimmed, and the empty ones are
  skipped.
\<close>

definition tokens :: "string \<Rightarrow> string list" where
  "tokens text = filter (\<lambda>t. t \<noteq> []) (map TrimSpace (Split (TrimSpace text) (CHR '','')))"

text \<open>
  The filter as the specification words it: an address passes if and only if the flag of
  its family is true and it satisfies the range policy.
\<close>

definition passes :: "IPSettings \<Rightarrow> addr \<Rightarrow> bool" where
  "passes settings a =
     ((if Is4 a then V4Enabled settings else V6Enabled settings) \<and> Contains settings a)"

text \<open>
  A list joined with a separator (\<^verbatim>\<open>strings.Join\<close>), and a literal with white space
  around it: the runes of \<open>l\<close> before it and those of \<open>r\<close> after it.
\<close>

fun Join :: "string list \<Rightarrow> string \<Rightarrow> string" where
  "Join [] sep = []"
| "Join [p] sep = p"
| "Join (p # q # ps) sep = p @ sep @ Join (q # ps) sep"

definition padded :: "string list \<times> string \<times> string list \<Rightarrow> string" where
  "padded item = (case item of (l, t, r) \<Rightarrow> concat l @ t @ concat r)"

text \<open>
  An address literal that can stand in a comma-separated list: the parser accepts it, it
  holds no comma, and it neither starts nor ends with white space of its own.
\<close>

definition literal :: "env \<Rightarrow> string \<Rightarrow> bool" where
  "literal e t \<longleftrightarrow>
     ParseAddr e t \<noteq> None \<and> t \<noteq> [] \<and> CHR '','' \<notin> set t \<and>
     leadingSpace t = None \<and> trailingSpace t = None"

text \<open>
  A piece of a comma-separated text: white space, then a core with no comma and no white
  space at its ends (a literal, or nothing), then white space. What may follow a core is
  nothing, a comma or a rune of white space; likewise for what may precede it.
\<close>

definition wellPadded :: "string list \<times> string \<times> string list \<Rightarrow> bool" where
  "wellPadded item =
     (case item of (l, t, r) \<Rightarrow>
        set l \<subseteq> set spaces \<and> set r \<subseteq> set spaces \<and> CHR '','' \<notin> set t \<and>
        leadingSpace t = None \<and> trailingSpace t = None)"

definition cleanStart :: "string \<Rightarrow> bool" where
  "cleanStart z \<longleftrightarrow> z = [] \<or> hd z = CHR '','' \<or> (\<exists>r\<in>set spaces. prefix r z)"

definition cleanEnd :: "string \<Rightarrow> bool" where
  "cleanEnd z \<longleftrightarrow> z = [] \<or> last z = CHR '','' \<or> (\<exists>r\<in>set spaces. suffix r z)"

text \<open>The same run with nothing on the standard error.\<close>

definition silent :: "env \<Rightarrow> env" where
  "silent e = e\<lparr>Run := (\<lambda>cmd. (Run e cmd)\<lparr>stderr := []\<rparr>)\<rparr>"

subsection \<open>The inputs of the repository's tests\<close>

text \<open>
  The tests run \<^verbatim>\<open>echo\<close> on the addresses below. For them the environment is: a
  replacer that finds no placeholder, a process whose execution is given, and a parser
  that knows the literals of the tests.
\<close>

definition test_ParseAddr :: "string \<Rightarrow> addr option" where
  "test_ParseAddr s =
     (if s = ''8.8.8.8'' then Some (Addr4 0x08080808)
      else if s = ''192.168.1.1'' then Some (Addr4 0xC0A80101)
      else if s = ''2001:4860:4860::8888'' then Some (Addr6 0x20014860486000000000000000008888 [])
      else None)"

definition test_AddrString :: "addr \<Rightarrow> string" where
  "test_AddrString a =
     (if a = Addr4 0x08080808 then ''8.8.8.8''
      else if a = Addr4 0xC0A80101 then ''192.168.1.1''
      else ''2001:4860:4860::8888'')"

text \<open>A replacer that knows one placeholder and finds another one unresolved.\<close>

definition test_ReplaceAll :: "string \<Rightarrow> string \<Rightarrow> string" where
  "test_ReplaceAll input unresolved =
     (if input = ''{env.SHELL}'' then ''/bin/sh''
      else if input = ''{env.NONE}'' then unresolved
      else input)"

definition test_env :: "execution \<Rightarrow> env" where
  "test_env r =
     \<lparr>ReplaceAll = (\<lambda>input empty. input), Run = (\<lambda>cmd. r),
      ParseAddr = test_ParseAddr, AddrString = test_AddrString\<rparr>"

definition echo :: "string \<Rightarrow> Command" where
  "echo text = \<lparr>Cmd = ''echo'', Args = [text], Dir = [], Timeout = None, logger = None\<rparr>"

text \<open>\<^verbatim>\<open>createIPSettings\<close> of the tests, with a range policy that rejects 192.168.1.1.\<close>

definition createIPSettings :: "bool \<Rightarrow> bool \<Rightarrow> IPSettings" where
  "createIPSettings ipv4 ipv6 =
     \<lparr>IPv4 = (if ipv4 then None else Some False),
      IPv6 = (if ipv6 then None else Some False),
      Contains = (\<lambda>a. a \<noteq> Addr4 0xC0A80101)\<rparr>"

text \<open>
  \<^verbatim>\<open>netip.ParseAddr\<close> takes the zone of an IPv6 address to be all that follows the first
  \<^verbatim>\<open>%\<close> and does not look into it. On the texts below it gives the address fe80::1 with
  the zones \<^verbatim>\<open>a,b\<close>, \<^verbatim>\<open>a\<close> and \<^verbatim>\<open>a\<close> followed by a space.
\<close>

definition zone_ParseAddr :: "string \<Rightarrow> addr option" where
  "zone_ParseAddr s =
     (if s = ''fe80::1%a,b'' then Some (Addr6 0xFE800000000000000000000000000001 ''a,b'')
      else if s = ''fe80::1%a'' then Some (Addr6 0xFE800000000000000000000000000001 ''a'')
      else if s = ''fe80::1%a '' then Some (Addr6 0xFE800000000000000000000000000001 ''a '')
      else None)"

definition zone_env :: "string \<Rightarrow> env" where
  "zone_env output =
     (test_env \<lparr>outcome = Exited 0, stdout = output, stderr = []\<rparr>)
       \<lparr>ParseAddr := zone_ParseAddr\<rparr>"

section \<open>Properties\<close>

lemma thirty_seconds: "30 * Second = (30000000000 :: 64 word)"
  by (simp add: Second_def)

lemma thirty_seconds_positive: "0 <s 30 * Second"
  by (simp add: Second_def word_sless_alt)

subsection \<open>White space at the ends of a text\<close>

text \<open>
  No encoding of a white-space rune is empty, holds a comma, or begins or ends another;
  and what is left of one after its first bytes neither begins a rune nor is begun by one.
\<close>

lemma spaces_nonempty: "e \<in> set spaces \<Longrightarrow> e \<noteq> []"
  by (auto simp: spaces_def)

lemma spaces_no_comma: "e \<in> set spaces \<Longrightarrow> CHR '','' \<notin> set e"
  by (auto simp: spaces_def)

lemma spaces_prefix_free:
  "\<forall>e\<in>set spaces. \<forall>r\<in>set spaces. prefix e r \<longrightarrow> e = r"
  by (simp add: spaces_def)

lemma spaces_suffix_free:
  "\<forall>e\<in>set spaces. \<forall>r\<in>set spaces. suffix e r \<longrightarrow> e = r"
  by (simp add: spaces_def suffix_to_prefix)

lemma spaces_inner_prefix:
  "\<forall>e\<in>set spaces. \<forall>r\<in>set spaces. \<forall>k\<in>{1..<length e}.
     \<not> prefix (drop k e) r \<and> \<not> prefix r (drop k e)"
  by (simp add: spaces_def atLeastLessThanSuc numeral_eq_Suc atLeast_upt upt_rec)

lemma spaces_inner_suffix:
  "\<forall>e\<in>set spaces. \<forall>r\<in>set spaces. \<forall>k\<in>{1..<length e}.
     \<not> suffix (take k e) r \<and> \<not> suffix r (take k e)"
  by (simp add: spaces_def atLeastLessThanSuc numeral_eq_Suc atLeast_upt upt_rec suffix_to_prefix)

lemma leadingSpace_None_iff: "leadingSpace s = None \<longleftrightarrow> (\<forall>e\<in>set spaces. \<not> prefix e s)"
  by (auto simp: leadingSpace_def find_None_iff)

lemma trailingSpace_None_iff: "trailingSpace s = None \<longleftrightarrow> (\<forall>e\<in>set spaces. \<not> suffix e s)"
  by (auto simp: trailingSpace_def find_None_iff)

lemma leadingSpace_SomeD: "leadingSpace s = Some e \<Longrightarrow> e \<in> set spaces \<and> prefix e s"
  by (auto simp: leadingSpace_def find_Some_iff)

lemma trailingSpace_SomeD: "trailingSpace s = Some e \<Longrightarrow> e \<in> set spaces \<and> suffix e s"
  by (auto simp: trailingSpace_def find_Some_iff)

lemma leadingSpace_rune:
  assumes "e \<in> set spaces"
  shows "leadingSpace (e @ s) = Some e"
proof (cases "leadingSpace (e @ s)")
  case None
  with assms show ?thesis by (auto simp: leadingSpace_None_iff)
next
  case (Some r)
  then have r: "r \<in> set spaces" "prefix r (e @ s)" by (auto dest: leadingSpace_SomeD)
  have "prefix e (e @ s)" by simp
  with r(2) have "prefix r e \<or> prefix e r" by (rule prefix_same_cases)
  with r(1) assms spaces_prefix_free have "r = e" by blast
  with Some show ?thesis by simp
qed

lemma trailingSpace_rune:
  assumes "e \<in> set spaces"
  shows "trailingSpace (s @ e) = Some e"
proof (cases "trailingSpace (s @ e)")
  case None
  with assms show ?thesis by (auto simp: trailingSpace_None_iff suffix_def)
next
  case (Some r)
  then have r: "r \<in> set spaces" "suffix r (s @ e)" by (auto dest: trailingSpace_SomeD)
  have "suffix e (s @ e)" by (simp add: suffix_def)
  with r(2) have "suffix r e \<or> suffix e r" by (rule suffix_same_cases)
  with r(1) assms spaces_suffix_free have "r = e" by blast
  with Some show ?thesis by simp
qed

lemma TrimLeft_rune: "e \<in> set spaces \<Longrightarrow> TrimLeft (e @ s) = TrimLeft s"
  by (subst TrimLeft.simps) (simp add: leadingSpace_rune)

lemma TrimRight_rune: "e \<in> set spaces \<Longrightarrow> TrimRight (s @ e) = TrimRight s"
  by (subst TrimRight.simps) (simp add: trailingSpace_rune)

lemma TrimLeft_runes: "set ws \<subseteq> set spaces \<Longrightarrow> TrimLeft (concat ws @ s) = TrimLeft s"
  by (induction ws) (simp_all add: TrimLeft_rune)

lemma TrimRight_runes: "set ws \<subseteq> set spaces \<Longrightarrow> TrimRight (s @ concat ws) = TrimRight s"
proof (induction ws rule: rev_induct)
  case Nil
  then show ?case by simp
next
  case (snoc w ws)
  then have "TrimRight ((s @ concat ws) @ w) = TrimRight (s @ concat ws)"
    by (intro TrimRight_rune) simp
  with snoc show ?case by simp
qed

lemma TrimLeft_id: "leadingSpace s = None \<Longrightarrow> TrimLeft s = s"
  by (subst TrimLeft.simps) simp

lemma TrimRight_id: "trailingSpace s = None \<Longrightarrow> TrimRight s = s"
  by (subst TrimRight.simps) simp

lemma leadingSpace_Nil: "leadingSpace [] = None"
  by (auto simp: leadingSpace_None_iff dest: spaces_nonempty)

lemma trailingSpace_Nil: "trailingSpace [] = None"
  by (auto simp: trailingSpace_None_iff dest: spaces_nonempty)

lemma leadingSpace_comma: "leadingSpace (CHR '','' # s) = None"
  unfolding leadingSpace_None_iff
proof
  fix e assume e: "e \<in> set spaces"
  show "\<not> prefix e (CHR '','' # s)"
  proof
    assume "prefix e (CHR '','' # s)"
    with spaces_nonempty[OF e] have "CHR '','' \<in> set e"
      by (cases e) (auto simp: prefix_Cons)
    with spaces_no_comma[OF e] show False by simp
  qed
qed

lemma trailingSpace_comma: "trailingSpace (s @ [CHR '','']) = None"
  unfolding trailingSpace_None_iff
proof
  fix e assume e: "e \<in> set spaces"
  show "\<not> suffix e (s @ [CHR '',''])"
  proof
    assume "suffix e (s @ [CHR '',''])"
    with spaces_nonempty[OF e] have "CHR '','' \<in> set e"
      by (cases e rule: rev_cases) (auto simp: suffix_def)
    with spaces_no_comma[OF e] show False by simp
  qed
qed

lemma leadingSpace_boundary:
  assumes t: "leadingSpace t = None" "t \<noteq> []"
      and y: "y = [] \<or> hd y = CHR '','' \<or> (\<exists>r\<in>set spaces. prefix r y)"
  shows "leadingSpace (t @ y) = None"
  unfolding leadingSpace_None_iff
proof
  fix e assume e: "e \<in> set spaces"
  show "\<not> prefix e (t @ y)"
  proof
    assume "prefix e (t @ y)"
    then have "prefix e t \<or> (\<exists>us. e = t @ us \<and> prefix us y)"
      by (simp only: prefix_append)
    moreover from t e have no: "\<not> prefix e t" by (simp add: leadingSpace_None_iff)
    ultimately obtain us where us0: "e = t @ us" "prefix us y" by blast
    with no have "us \<noteq> []" by auto
    note us = us0 this
    then have y_ne: "y \<noteq> []" by auto
    have k: "length t \<in> {1..<length e}" using us t(2) by (cases t) auto
    have d: "drop (length t) e = us" using us by simp
    from y y_ne consider "hd y = CHR '',''" | r where "r \<in> set spaces" "prefix r y" by blast
    then show False
    proof cases
      case 1
      from us(3) obtain u us' where u: "us = u # us'" by (cases us) auto
      with us(2) have "hd y = u" by (auto simp: prefix_def)
      with 1 u us(1) have "CHR '','' \<in> set e" by simp
      with spaces_no_comma[OF e] show ?thesis by simp
    next
      case 2
      from us(2) 2(2) have "prefix us r \<or> prefix r us" by (rule prefix_same_cases)
      with spaces_inner_prefix[rule_format, OF e 2(1) k] d show ?thesis by simp
    qed
  qed
qed

lemma trailingSpace_boundary:
  assumes t: "trailingSpace t = None" "t \<noteq> []"
      and y: "y = [] \<or> last y = CHR '','' \<or> (\<exists>r\<in>set spaces. suffix r y)"
  shows "trailingSpace (y @ t) = None"
  unfolding trailingSpace_None_iff
proof
  fix e assume e: "e \<in> set spaces"
  show "\<not> suffix e (y @ t)"
  proof
    assume "suffix e (y @ t)"
    then have "suffix e t \<or> (\<exists>us. e = us @ t \<and> suffix us y)"
      by (simp only: suffix_append)
    moreover from t e have no: "\<not> suffix e t" by (simp add: trailingSpace_None_iff)
    ultimately obtain us where us0: "e = us @ t" "suffix us y" by blast
    with no have "us \<noteq> []" by auto
    note us = us0 this
    then have y_ne: "y \<noteq> []" by auto
    have k: "length us \<in> {1..<length e}" using us t(2) by (cases us) auto
    have d: "take (length us) e = us" using us by simp
    from y y_ne consider "last y = CHR '',''" | r where "r \<in> set spaces" "suffix r y" by blast
    then show False
    proof cases
      case 1
      from us(2) obtain zs where "y = zs @ us" by (auto simp: suffix_def)
      with us(3) 1 have "last us = CHR '',''" by simp
      with us(3) last_in_set[of us] us(1) have "CHR '','' \<in> set e" by auto
      with spaces_no_comma[OF e] show ?thesis by simp
    next
      case 2
      from us(2) 2(2) have "suffix us r \<or> suffix r us" by (rule suffix_same_cases)
      with spaces_inner_suffix[rule_format, OF e 2(1) k] d show ?thesis by simp
    qed
  qed
qed

subsection \<open>Texts of padded pieces\<close>

text \<open>
  Splitting undoes joining when no piece holds the separator. Trimming a padded piece
  leaves its core, and trimming a text of padded pieces leaves a text of padded pieces with
  the same cores; so the tokens of such a text are its cores that are not empty.
\<close>

lemma Join_Cons: "Join (p # ps) sep = p @ (if ps = [] then [] else sep @ Join ps sep)"
  by (cases ps) simp_all

lemma Join_snoc: "Join (ps @ [p]) sep = (if ps = [] then p else Join ps sep @ sep @ p)"
  by (induction ps sep rule: Join.induct) simp_all

lemma Split_no_sep: "c \<notin> set p \<Longrightarrow> Split p c = [p]"
  by (induction p) auto

lemma Split_append_sep: "c \<notin> set p \<Longrightarrow> Split (p @ c # s) c = p # Split s c"
  by (induction p) auto

lemma Split_Join:
  "ps \<noteq> [] \<Longrightarrow> \<forall>p\<in>set ps. c \<notin> set p \<Longrightarrow> Split (Join ps [c]) c = ps"
proof (induction ps)
  case Nil
  then show ?case by simp
next
  case (Cons p ps)
  show ?case
  proof (cases "ps = []")
    case True
    with Cons.prems show ?thesis by (simp add: Split_no_sep)
  next
    case False
    with Cons have "Split (Join ps [c]) c = ps" by simp
    with False Cons.prems show ?thesis by (simp add: Join_Cons Split_append_sep)
  qed
qed

lemma cleanStart_Nil: "cleanStart []"
  by (simp add: cleanStart_def)

lemma cleanStart_comma: "cleanStart (CHR '','' # z)"
  by (simp add: cleanStart_def)

lemma cleanStart_runes:
  "set ws \<subseteq> set spaces \<Longrightarrow> cleanStart z \<Longrightarrow> cleanStart (concat ws @ z)"
proof (cases ws)
  case Nil
  then show "cleanStart z \<Longrightarrow> cleanStart (concat ws @ z)" by simp
next
  case (Cons w ws')
  assume "set ws \<subseteq> set spaces"
  with Cons have "w \<in> set spaces" by simp
  moreover have "prefix w (concat ws @ z)" using Cons by simp
  ultimately have "\<exists>r\<in>set spaces. prefix r (concat ws @ z)" by blast
  then show "cleanStart (concat ws @ z)" by (simp add: cleanStart_def)
qed

lemma cleanEnd_Nil: "cleanEnd []"
  by (simp add: cleanEnd_def)

lemma cleanEnd_comma: "cleanEnd (z @ [CHR '',''])"
  by (simp add: cleanEnd_def)

lemma cleanEnd_runes:
  "set ws \<subseteq> set spaces \<Longrightarrow> cleanEnd z \<Longrightarrow> cleanEnd (z @ concat ws)"
proof (cases ws rule: rev_cases)
  case Nil
  then show "cleanEnd z \<Longrightarrow> cleanEnd (z @ concat ws)" by simp
next
  case (snoc ws' w)
  assume "set ws \<subseteq> set spaces"
  with snoc have "w \<in> set spaces" by simp
  moreover have "suffix w (z @ concat ws)" using snoc by (simp add: suffix_def)
  ultimately have "\<exists>r\<in>set spaces. suffix r (z @ concat ws)" by blast
  then show "cleanEnd (z @ concat ws)" by (simp add: cleanEnd_def)
qed

lemma leadingSpace_core:
  "leadingSpace t = None \<Longrightarrow> t \<noteq> [] \<Longrightarrow> cleanStart z \<Longrightarrow> leadingSpace (t @ z) = None"
  by (rule leadingSpace_boundary) (simp_all add: cleanStart_def)

lemma trailingSpace_core:
  "trailingSpace t = None \<Longrightarrow> t \<noteq> [] \<Longrightarrow> cleanEnd z \<Longrightarrow> trailingSpace (z @ t) = None"
  by (rule trailingSpace_boundary) (simp_all add: cleanEnd_def)

lemma TrimLeft_white: "set ws \<subseteq> set spaces \<Longrightarrow> TrimLeft (concat ws) = []"
  using TrimLeft_runes [of ws "[]"] by (simp add: TrimLeft_id leadingSpace_Nil)

lemma TrimRight_white: "set ws \<subseteq> set spaces \<Longrightarrow> TrimRight (concat ws) = []"
  using TrimRight_runes [of ws "[]"] by (simp add: TrimRight_id trailingSpace_Nil)

lemma TrimSpace_Nil: "TrimSpace [] = []"
  by (simp add: TrimSpace_def TrimLeft_id TrimRight_id leadingSpace_Nil trailingSpace_Nil)

lemma TrimSpace_padded:
  assumes "wellPadded (l, t, r)"
  shows "TrimSpace (padded (l, t, r)) = t"
proof -
  from assms have l: "set l \<subseteq> set spaces" and r: "set r \<subseteq> set spaces"
    and lead: "leadingSpace t = None" and trail: "trailingSpace t = None"
    by (simp_all add: wellPadded_def)
  show ?thesis
  proof (cases "t = []")
    case True
    have "TrimLeft (concat (l @ r)) = []" using l r by (intro TrimLeft_white) simp
    with True show ?thesis
      by (simp add: TrimSpace_def padded_def TrimRight_id trailingSpace_Nil)
  next
    case False
    have "cleanStart (concat r @ [])" using r by (intro cleanStart_runes cleanStart_Nil)
    then have "leadingSpace (t @ concat r) = None"
      using lead False by (simp add: leadingSpace_core)
    then have "TrimLeft (concat l @ (t @ concat r)) = t @ concat r"
      using l by (simp add: TrimLeft_runes TrimLeft_id)
    moreover have "TrimRight (t @ concat r) = t"
      using r trail by (simp add: TrimRight_runes TrimRight_id)
    ultimately show ?thesis by (simp add: TrimSpace_def padded_def)
  qed
qed

lemma padded_no_comma: "wellPadded item \<Longrightarrow> CHR '','' \<notin> set (padded item)"
  by (cases item) (auto simp: wellPadded_def padded_def dest: spaces_no_comma)

lemma wellPadded_bare: "wellPadded ([], [], [])"
  by (simp add: wellPadded_def leadingSpace_Nil trailingSpace_Nil)

lemma padded_bare: "padded ([], [], []) = []"
  by (simp add: padded_def)

lemma TrimLeft_text:
  assumes items: "list_all wellPadded items"
    and L: "set L \<subseteq> set spaces" and R: "set R \<subseteq> set spaces"
  shows "\<exists>items' R'. list_all wellPadded items' \<and> set R' \<subseteq> set spaces \<and>
           map (fst \<circ> snd) items' = map (fst \<circ> snd) items \<and>
           TrimLeft (concat L @ Join (map padded items) '','' @ concat R)
             = Join (map padded items') '','' @ concat R'"
proof (cases items)
  case Nil
  have "TrimLeft (concat (L @ R)) = []" using L R by (intro TrimLeft_white) simp
  with Nil have "list_all wellPadded [] \<and> set ([]::string list) \<subseteq> set spaces \<and>
      map (fst \<circ> snd) [] = map (fst \<circ> snd) items \<and>
      TrimLeft (concat L @ Join (map padded items) '','' @ concat R)
        = Join (map padded []) '','' @ concat []"
    by simp
  then show ?thesis by blast
next
  case (Cons item rest)
  obtain l t r where item: "item = (l, t, r)" by (cases item)
  from items Cons item have wp: "wellPadded (l, t, r)" and rest: "list_all wellPadded rest"
    by simp_all
  from wp have l: "set l \<subseteq> set spaces" and r: "set r \<subseteq> set spaces"
    and lead: "leadingSpace t = None"
    by (simp_all add: wellPadded_def)
  define tail where "tail = (if rest = [] then [] else '','' @ Join (map padded rest) '','')"
  have J: "Join (map padded items) '','' = concat l @ t @ concat r @ tail"
    by (simp add: Cons item Join_Cons padded_def tail_def)
  have ct: "cleanStart (tail @ concat R)"
  proof (cases "rest = []")
    case True
    then show ?thesis using cleanStart_runes [OF R cleanStart_Nil] by (simp add: tail_def)
  next
    case False
    then show ?thesis by (simp add: tail_def cleanStart_comma)
  qed
  have "TrimLeft (concat (L @ l) @ (t @ concat r @ tail @ concat R))
      = TrimLeft (t @ concat r @ tail @ concat R)"
    using L l by (intro TrimLeft_runes) simp
  then have step: "TrimLeft (concat L @ Join (map padded items) '','' @ concat R)
      = TrimLeft (t @ concat r @ tail @ concat R)"
    by (simp add: J)
  show ?thesis
  proof (cases "t = []")
    case False
    have "cleanStart (concat r @ tail @ concat R)" using r ct by (rule cleanStart_runes)
    with lead False have "leadingSpace (t @ concat r @ tail @ concat R) = None"
      by (rule leadingSpace_core)
    then have "TrimLeft (t @ concat r @ tail @ concat R) = t @ concat r @ tail @ concat R"
      by (rule TrimLeft_id)
    with step have "TrimLeft (concat L @ Join (map padded items) '','' @ concat R)
        = Join (map padded (([], t, r) # rest)) '','' @ concat R"
      by (simp add: Join_Cons padded_def tail_def)
    moreover have "list_all wellPadded (([], t, r) # rest)"
      using wp rest by (simp add: wellPadded_def)
    moreover have "map (fst \<circ> snd) (([], t, r) # rest) = map (fst \<circ> snd) items"
      by (simp add: Cons item)
    ultimately show ?thesis using R by blast
  next
    case True
    have tr: "TrimLeft (concat r @ tail @ concat R) = TrimLeft (tail @ concat R)"
      using r by (rule TrimLeft_runes)
    show ?thesis
    proof (cases "rest = []")
      case rest_Nil: True
      have "TrimLeft (concat R) = []" using R by (rule TrimLeft_white)
      with step tr True rest_Nil
      have "TrimLeft (concat L @ Join (map padded items) '','' @ concat R)
          = Join (map padded [([], [], [])]) '','' @ concat []"
        by (simp add: tail_def padded_bare)
      moreover have "list_all wellPadded [([], [], [])]" by (simp add: wellPadded_bare)
      moreover have "map (fst \<circ> snd) [([], [], [])] = map (fst \<circ> snd) items"
        by (simp add: Cons item True rest_Nil)
      moreover have "set ([]::string list) \<subseteq> set spaces" by simp
      ultimately show ?thesis by blast
    next
      case False
      then have "leadingSpace (tail @ concat R) = None"
        by (simp add: tail_def leadingSpace_comma)
      then have "TrimLeft (tail @ concat R) = tail @ concat R" by (rule TrimLeft_id)
      with step tr True False
      have "TrimLeft (concat L @ Join (map padded items) '','' @ concat R)
          = Join (map padded (([], [], []) # rest)) '','' @ concat R"
        by (simp add: tail_def padded_bare Join_Cons)
      moreover have "list_all wellPadded (([], [], []) # rest)"
        using rest by (simp add: wellPadded_bare)
      moreover have "map (fst \<circ> snd) (([], [], []) # rest) = map (fst \<circ> snd) items"
        by (simp add: Cons item True)
      ultimately show ?thesis using R by blast
    qed
  qed
qed

lemma TrimRight_text:
  assumes items: "list_all wellPadded items" and R: "set R \<subseteq> set spaces"
  shows "\<exists>items'. list_all wellPadded items' \<and>
           map (fst \<circ> snd) items' = map (fst \<circ> snd) items \<and>
           TrimRight (Join (map padded items) '','' @ concat R)
             = Join (map padded items') '',''"
proof (cases items rule: rev_cases)
  case Nil
  have "TrimRight (concat R) = []" using R by (rule TrimRight_white)
  with Nil have "list_all wellPadded [] \<and>
      map (fst \<circ> snd) [] = map (fst \<circ> snd) items \<and>
      TrimRight (Join (map padded items) '','' @ concat R) = Join (map padded []) '',''"
    by simp
  then show ?thesis by blast
next
  case (snoc init item)
  obtain l t r where item: "item = (l, t, r)" by (cases item)
  from items snoc item have wp: "wellPadded (l, t, r)" and init: "list_all wellPadded init"
    by simp_all
  from wp have l: "set l \<subseteq> set spaces" and r: "set r \<subseteq> set spaces"
    and trail: "trailingSpace t = None"
    by (simp_all add: wellPadded_def)
  define pre where "pre = (if init = [] then [] else Join (map padded init) '','' @ '','')"
  have J: "Join (map padded items) '','' = pre @ concat l @ t @ concat r"
    by (simp add: snoc item Join_snoc padded_def pre_def)
  have J': "Join (map padded init @ [padded (l', t', r')]) '','' = pre @ concat l' @ t' @ concat r'"
    for l' t' r'
    by (simp add: Join_snoc padded_def pre_def)
  have cp: "cleanEnd pre"
  proof (cases "init = []")
    case True
    then show ?thesis by (simp add: pre_def cleanEnd_Nil)
  next
    case False
    then show ?thesis using cleanEnd_comma [of "Join (map padded init) '',''"]
      by (simp add: pre_def)
  qed
  have "TrimRight ((pre @ concat l @ t) @ concat (r @ R)) = TrimRight (pre @ concat l @ t)"
    using r R by (intro TrimRight_runes) simp
  then have step: "TrimRight (Join (map padded items) '','' @ concat R)
      = TrimRight (pre @ concat l @ t)"
    by (simp add: J)
  show ?thesis
  proof (cases "t = []")
    case False
    have "cleanEnd (pre @ concat l)" using l cp by (rule cleanEnd_runes)
    with trail False have "trailingSpace ((pre @ concat l) @ t) = None"
      by (rule trailingSpace_core)
    then have "TrimRight ((pre @ concat l) @ t) = (pre @ concat l) @ t"
      by (rule TrimRight_id)
    with step have "TrimRight (Join (map padded items) '','' @ concat R)
        = Join (map padded (init @ [(l, t, [])])) '',''"
      by (simp add: J')
    moreover have "list_all wellPadded (init @ [(l, t, [])])"
      using wp init by (simp add: wellPadded_def)
    moreover have "map (fst \<circ> snd) (init @ [(l, t, [])]) = map (fst \<circ> snd) items"
      by (simp add: snoc item)
    ultimately show ?thesis by blast
  next
    case True
    have tr: "TrimRight (pre @ concat l) = TrimRight pre"
      using l by (rule TrimRight_runes)
    have "trailingSpace pre = None"
    proof (cases "init = []")
      case True
      then show ?thesis by (simp add: pre_def trailingSpace_Nil)
    next
      case False
      then show ?thesis using trailingSpace_comma [of "Join (map padded init) '',''"]
        by (simp add: pre_def)
    qed
    then have "TrimRight pre = pre" by (rule TrimRight_id)
    with step tr True have "TrimRight (Join (map padded items) '','' @ concat R)
        = Join (map padded (init @ [([], [], [])])) '',''"
      by (simp add: J')
    moreover have "list_all wellPadded (init @ [([], [], [])])"
      using init by (simp add: wellPadded_bare)
    moreover have "map (fst \<circ> snd) (init @ [([], [], [])]) = map (fst \<circ> snd) items"
      by (simp add: snoc item True)
    ultimately show ?thesis by blast
  qed
qed

lemma TrimSpace_text:
  assumes "list_all wellPadded items"
    and "set L \<subseteq> set spaces" and "set R \<subseteq> set spaces"
  shows "\<exists>items'. list_all wellPadded items' \<and>
           map (fst \<circ> snd) items' = map (fst \<circ> snd) items \<and>
           TrimSpace (concat L @ Join (map padded items) '','' @ concat R)
             = Join (map padded items') '',''"
proof -
  from TrimLeft_text [OF assms] obtain items1 R1 where
    1: "list_all wellPadded items1" "set R1 \<subseteq> set spaces"
       "map (fst \<circ> snd) items1 = map (fst \<circ> snd) items"
       "TrimLeft (concat L @ Join (map padded items) '','' @ concat R)
          = Join (map padded items1) '','' @ concat R1"
    by blast
  from TrimRight_text [OF 1(1,2)] obtain items2 where
    2: "list_all wellPadded items2" "map (fst \<circ> snd) items2 = map (fst \<circ> snd) items1"
       "TrimRight (Join (map padded items1) '','' @ concat R1) = Join (map padded items2) '',''"
    by blast
  from 1 2 show ?thesis by (auto simp: TrimSpace_def)
qed

lemma tokens_text:
  assumes "list_all wellPadded items"
    and "set L \<subseteq> set spaces" and "set R \<subseteq> set spaces"
  shows "tokens (concat L @ Join (map padded items) '','' @ concat R)
           = filter (\<lambda>t. t \<noteq> []) (map (fst \<circ> snd) items)"
proof -
  from TrimSpace_text [OF assms] obtain items' where
    wp: "list_all wellPadded items'" and same: "map (fst \<circ> snd) items' = map (fst \<circ> snd) items"
    and trim: "TrimSpace (concat L @ Join (map padded items) '','' @ concat R)
          = Join (map padded items') '',''"
    by blast
  have pieces: "map TrimSpace (map padded items') = map (fst \<circ> snd) items'"
    using wp by (induction items') (auto simp: TrimSpace_padded)
  show ?thesis
  proof (cases "items' = []")
    case True
    with same have "items = []" by simp
    with True trim show ?thesis by (simp add: tokens_def TrimSpace_Nil)
  next
    case False
    have "\<forall>p\<in>set (map padded items'). CHR '','' \<notin> set p"
      using wp by (auto simp: list_all_iff dest: padded_no_comma)
    with False have "Split (Join (map padded items') '','') (CHR '','') = map padded items'"
      by (intro Split_Join) simp_all
    with trim pieces same show ?thesis by (simp add: tokens_def)
  qed
qed

lemma commas_and_spaces_padded:
  assumes "set ws \<subseteq> insert '','' (set spaces)"
  shows "\<exists>items. items \<noteq> [] \<and> list_all wellPadded items \<and>
           (\<forall>i\<in>set items. fst (snd i) = []) \<and> concat ws = Join (map padded items) '',''"
  using assms
proof (induction ws)
  case Nil
  have "[([], [], [])] \<noteq> [] \<and> list_all wellPadded [([], [], [])] \<and>
      (\<forall>i\<in>set [([], [], [])]. fst (snd i) = ([]::string)) \<and>
      concat [] = Join (map padded [([], [], [])]) '',''"
    by (simp add: wellPadded_bare padded_bare)
  then show ?case by blast
next
  case (Cons w ws)
  then obtain items where items: "items \<noteq> []" "list_all wellPadded items"
      "\<forall>i\<in>set items. fst (snd i) = []" "concat ws = Join (map padded items) '',''"
    by auto
  show ?case
  proof (cases "w = '',''")
    case True
    let ?items = "([], [], []) # items"
    have "concat (w # ws) = Join (map padded ?items) '',''"
      using items(1,4) True by (simp add: Join_Cons padded_bare)
    moreover have "list_all wellPadded ?items" using items(2) by (simp add: wellPadded_bare)
    moreover have "\<forall>i\<in>set ?items. fst (snd i) = []" using items(3) by simp
    ultimately show ?thesis by blast
  next
    case False
    with Cons.prems have w: "w \<in> set spaces" by auto
    from items(1) obtain item rest where ir: "items = item # rest" by (cases items) auto
    obtain l t r where item: "item = (l, t, r)" by (cases item)
    let ?items = "(w # l, t, r) # rest"
    have "concat (w # ws) = Join (map padded ?items) '',''"
      using items(4) by (simp add: ir item Join_Cons padded_def)
    moreover have "list_all wellPadded ?items"
      using items(2) w by (simp add: ir item wellPadded_def)
    moreover have "\<forall>i\<in>set ?items. fst (snd i) = []" using items(3) by (simp add: ir item)
    ultimately show ?thesis by blast
  qed
qed

lemma tokens_commas_and_spaces:
  assumes "set ws \<subseteq> insert '','' (set spaces)"
  shows "tokens (concat ws) = []"
proof -
  from commas_and_spaces_padded [OF assms] obtain items where
    items: "list_all wellPadded items" "\<forall>i\<in>set items. fst (snd i) = []"
      "concat ws = Join (map padded items) '',''"
    by blast
  from tokens_text [OF items(1), of "[]" "[]"] items(3)
  have "tokens (concat ws) = filter (\<lambda>t. t \<noteq> []) (map (fst \<circ> snd) items)" by simp
  also have "\<dots> = []" using items(2) by (simp add: filter_empty_conv)
  finally show ?thesis .
qed

subsection \<open>The loop and a run that exits with status 0\<close>

text \<open>
  The two branches of the loop that append an address are the two gates of \<open>passes\<close>;
  the result of the loop does not depend on the log, and the log only grows.
\<close>

lemma passes_iff:
  "passes s a \<longleftrightarrow>
     (V4Enabled s \<and> Is4 a \<and> Contains s a) \<or> (V6Enabled s \<and> Is6 a \<and> Contains s a)"
  by (cases a) (auto simp: passes_def)

lemma parseLoop_result:
  "snd (parseLoop e c s txt ps out lg) =
     (case find (\<lambda>t. ParseAddr e t = None) (filter (\<lambda>t. t \<noteq> []) (map TrimSpace ps)) of
        Some bad \<Rightarrow> Inl (InvalidIP bad)
      | None \<Rightarrow>
          Inr (out @ filter (passes s)
                 (map (\<lambda>t. the (ParseAddr e t)) (filter (\<lambda>t. t \<noteq> []) (map TrimSpace ps)))))"
proof (induction ps arbitrary: out lg)
  case Nil
  then show ?case by simp
next
  case (Cons p ps)
  show ?case
  proof (cases "TrimSpace p = []")
    case True
    then show ?thesis by (simp add: Cons.IH split: option.split)
  next
    case False
    show ?thesis
    proof (cases "ParseAddr e (TrimSpace p)")
      case None
      with False show ?thesis by (simp add: Let_def)
    next
      case (Some a)
      have pa: "passes s a \<longleftrightarrow>
          (V4Enabled s \<and> Is4 a \<and> Contains s a) \<or> (V6Enabled s \<and> Is6 a \<and> Contains s a)"
        by (rule passes_iff)
      show ?thesis
      proof (cases "passes s a")
        case True
        with pa False Some show ?thesis
          by (auto simp add: Cons.IH split: option.split)
      next
        case no: False
        with pa False Some show ?thesis
          by (auto simp add: Cons.IH split: option.split)
      qed
    qed
  qed
qed

lemma parseLoop_log:
  "fst (parseLoop e c s txt ps out (lg1 @ lg2)) = lg1 @ fst (parseLoop e c s txt ps out lg2)"
proof (induction ps arbitrary: out lg2)
  case Nil
  then show ?case by simp
next
  case (Cons p ps)
  show ?case
  proof (cases "TrimSpace p = []")
    case True
    then show ?thesis by (simp add: Cons.IH)
  next
    case False
    show ?thesis
    proof (cases "ParseAddr e (TrimSpace p)")
      case None
      with False show ?thesis by (simp add: Let_def)
    next
      case (Some a)
      with False show ?thesis
        by (auto simp add: Cons.IH)
    qed
  qed
qed


lemma GetIPs_exit_zero_unfold:
  assumes "Timeout c = Some t" and "logger c = Some l"
    and "outcome (Run e (CommandContext e cx c)) = Exited 0"
  shows "GetIPs e cx c s =
     (let r = Run e (CommandContext e cx c);
          X = parseLoop e c s (stdout r) (Split (TrimSpace (stdout r)) (CHR '','')) []
               ((DebugLevel, ''running command'',
                  [zString ''command'' (Cmd c), zStrings ''args'' (expandedArgs e c),
                   zString ''dir'' (Dir c), zInt64 ''timeout'' (sint t)]) #
                (if stderr r = [] then []
                 else [(WarnLevel, ''command produced stderr output'',
                         [zString ''command'' (Cmd c), zString ''stderr'' (stderr r)])]))
      in (fst X, Return (snd X)))"
  using assms by (simp add: GetIPs_def Let_def case_prod_beta)

lemma GetIPs_exit_zero:
  assumes "Timeout c = Some t" and "logger c = Some l"
    and "outcome (Run e (CommandContext e cx c)) = Exited 0"
  shows "snd (GetIPs e cx c s) =
     Return (case find (\<lambda>t. ParseAddr e t = None) (tokens (stdout (Run e (CommandContext e cx c)))) of
        Some bad \<Rightarrow> Inl (InvalidIP bad)
      | None \<Rightarrow>
          Inr (filter (passes s)
                 (map (\<lambda>t. the (ParseAddr e t)) (tokens (stdout (Run e (CommandContext e cx c)))))))"
  by (simp add: GetIPs_exit_zero_unfold[OF assms] Let_def parseLoop_result tokens_def
        split: option.split)

subsection \<open>What the environment is used for\<close>

text \<open>
  \<^verbatim>\<open>GetIPs\<close> reads the replacer, the parser and the printer of addresses, and asks the
  operating system for the one command it has built.
\<close>

lemma CommandContext_cong:
  "ReplaceAll e' = ReplaceAll e \<Longrightarrow> CommandContext e' cx c = CommandContext e cx c"
  by (simp add: CommandContext_def expandedArgs_def)

lemma parseLoop_cong:
  assumes "ReplaceAll e' = ReplaceAll e" "ParseAddr e' = ParseAddr e" "AddrString e' = AddrString e"
  shows "parseLoop e' c s txt ps out lg = parseLoop e c s txt ps out lg"
  using assms
  by (induction ps arbitrary: out lg) (auto simp add: expandedArgs_def Let_def split: option.split)

lemma GetIPs_cong:
  assumes "ReplaceAll e' = ReplaceAll e" "ParseAddr e' = ParseAddr e" "AddrString e' = AddrString e"
    and "Run e' (CommandContext e cx c) = Run e (CommandContext e cx c)"
  shows "GetIPs e' cx c s = GetIPs e cx c s"
  using assms
  by (simp add: GetIPs_def CommandContext_cong[OF assms(1)] parseLoop_cong[OF assms(1-3)]
        expandedArgs_def Let_def split: option.split)

lemma silent_simps:
  "ReplaceAll (silent e) = ReplaceAll e" "ParseAddr (silent e) = ParseAddr e"
  "AddrString (silent e) = AddrString e" "Run (silent e) cmd = (Run e cmd)\<lparr>stderr := []\<rparr>"
  by (simp_all add: silent_def)

subsection \<open>A run that fails\<close>

text \<open>
  Whatever error \<^verbatim>\<open>cmd.Run\<close> gives is returned as it is. After a nil error the exit code
  is 0, so the error of line 137 is never returned.
\<close>

lemma GetIPs_run_error:
  assumes "Timeout c = Some t" and "logger c = Some l"
    and "Run_error (outcome (Run e (CommandContext e cx c))) = Some err"
  shows "snd (GetIPs e cx c s) = Return (Inl (RunError err))"
  using assms by (simp add: GetIPs_def Let_def)

lemma GetIPs_nonzero_exit:
  assumes "Timeout c = Some t" and "logger c = Some l"
    and "outcome (Run e (CommandContext e cx c)) = Exited n" and "n \<noteq> 0"
  shows "snd (GetIPs e cx c s) = Return (Inl (RunError (ExitError n)))"
  using assms by (simp add: GetIPs_run_error)

lemma GetIPs_killed:
  assumes "Timeout c = Some t" and "logger c = Some l"
    and "outcome (Run e (CommandContext e cx c)) = Killed"
  shows "snd (GetIPs e cx c s) = Return (Inl (RunError SignalError))"
  using assms by (simp add: GetIPs_run_error)

lemma exit_code_after_success: "Run_error out = None \<Longrightarrow> ExitCode out = 0"
  by (cases out) (auto split: if_splits)

lemma GetIPs_never_ExitedWith: "snd (GetIPs e cx c s) \<noteq> Return (Inl (ExitedWith cmd n))"
proof (cases "Timeout c")
  case None
  then show ?thesis by (simp add: GetIPs_def Let_def)
next
  case t: (Some t)
  show ?thesis
  proof (cases "logger c")
    case None
    with t show ?thesis by (simp add: GetIPs_def Let_def)
  next
    case l: (Some l)
    show ?thesis
    proof (cases "Run_error (outcome (Run e (CommandContext e cx c)))")
      case (Some err)
      with t l show ?thesis by (simp add: GetIPs_run_error)
    next
      case None
      then have "outcome (Run e (CommandContext e cx c)) = Exited 0"
        by (cases "outcome (Run e (CommandContext e cx c))") (auto split: if_splits)
      from GetIPs_exit_zero[OF t l this] show ?thesis by (simp split: option.split)
    qed
  qed
qed

subsection \<open>The inputs of the tests\<close>

lemma test_provisioned:
  "Timeout (Provision Logger (echo x)) = Some 30000000000"
  "logger (Provision Logger (echo x)) = Some Logger"
  by (simp_all add: Provision_def echo_def Second_def)

lemma test_run: "Run (test_env r) cmd = r"
  by (simp add: test_env_def)

lemma test_ParseAddr: "ParseAddr (test_env r) = test_ParseAddr"
  by (simp add: test_env_def)

subsection \<open>Provisioning\<close>

text \<open>
  C8: \<^verbatim>\<open>Provision\<close> resolves the timeout. An absent (nil) or non-positive timeout
  becomes exactly 30 seconds, which is 30 * 10^9 nanoseconds in the 64 bits of a
  duration; a positive timeout is kept as it is. The older copy, whose timeout is a value,
  does the same for a non-positive and a positive value.
\<close>

theorem Provision_resolves_timeout:
  "(Timeout c = None \<longrightarrow> Timeout (Provision lg c) = Some (30 * Second)) \<and>
   (\<forall>t. Timeout c = Some t \<and> sint t \<le> 0 \<longrightarrow> Timeout (Provision lg c) = Some (30 * Second)) \<and>
   (\<forall>t. Timeout c = Some t \<and> 0 < sint t \<longrightarrow> Timeout (Provision lg c) = Some t) \<and>
   sint (30 * Second) = 30 * 10 ^ 9 \<and>
   LTimeout (Provision_legacy lg d) =
     (if sint (LTimeout d) \<le> 0 then 30 * Second else LTimeout d)"
  by (auto simp: Provision_def Provision_legacy_def Let_def word_sle_eq Second_def
           split: option.splits)

theorem Provision_resolves_timeout_witness:
  "Timeout (Provision Logger (echo ''1.2.3.4'')) = Some 30000000000 \<and>
   Timeout (Provision Logger ((echo ''1.2.3.4'')\<lparr>Timeout := Some (- 5)\<rparr>)) = Some 30000000000 \<and>
   Timeout (Provision Logger ((echo ''1.2.3.4'')\<lparr>Timeout := Some 100000000\<rparr>)) = Some 100000000"
  using Provision_resolves_timeout [of "echo ''1.2.3.4''" Logger]
    Provision_resolves_timeout [of "(echo ''1.2.3.4'')\<lparr>Timeout := Some (- 5)\<rparr>" Logger]
    Provision_resolves_timeout [of "(echo ''1.2.3.4'')\<lparr>Timeout := Some 100000000\<rparr>" Logger]
  by (simp add: echo_def Second_def)

text \<open>
  C10: after \<^verbatim>\<open>Provision\<close> the timeout is a non-nil pointer to a strictly positive
  duration, so that \<^verbatim>\<open>GetIPs\<close> reads it at line 113 (and calls its logger) without a
  panic and returns. On a command whose timeout is nil the branch of line 99 that installs
  the deadline is skipped, the context staying the caller's, and the read of line 113 is
  reached and panics, before any process is run and before anything is logged.
\<close>

theorem Provision_guards_timeout_read:
  "(\<exists>t. Timeout (Provision lg c) = Some t \<and> 0 < sint t) \<and>
   (\<exists>res. snd (GetIPs e cx (Provision lg c) s) = Return res) \<and>
   (Timeout c = None \<longrightarrow> runCtx cx c = cx \<and> GetIPs e cx c s = ([], Panic NilTimeout))"
proof (intro conjI impI)
  show t: "\<exists>t. Timeout (Provision lg c) = Some t \<and> 0 < sint t"
    by (auto simp: Provision_def Let_def word_sle_eq Second_def split: option.splits)
  have l: "logger (Provision lg c) = Some lg"
    by (simp add: Provision_def Let_def)
  from t obtain t where "Timeout (Provision lg c) = Some t" by blast
  with l show "\<exists>res. snd (GetIPs e cx (Provision lg c) s) = Return res"
    by (simp add: GetIPs_def Let_def case_prod_beta split: option.split)
next
  assume "Timeout c = None"
  then show "runCtx cx c = cx" by (simp add: runCtx_def)
next
  assume "Timeout c = None"
  then show "GetIPs e cx c s = ([], Panic NilTimeout)" by (simp add: GetIPs_def Let_def)
qed

theorem Provision_guards_timeout_read_witness:
  "Timeout (Provision Logger (echo ''8.8.8.8'')) = Some 30000000000 \<and>
   snd (GetIPs (test_env \<lparr>outcome = Exited 0, stdout = ''8.8.8.8'', stderr = []\<rparr>) Background
          (Provision Logger (echo ''8.8.8.8'')) (createIPSettings True True))
     = Return (Inr [Addr4 0x08080808]) \<and>
   GetIPs (test_env \<lparr>outcome = Exited 0, stdout = ''8.8.8.8'', stderr = []\<rparr>) Background
          (echo ''8.8.8.8'') (createIPSettings True True)
     = ([], Panic NilTimeout)"
proof -
  let ?e = "test_env \<lparr>outcome = Exited 0, stdout = ''8.8.8.8'', stderr = []\<rparr>"
  let ?s = "createIPSettings True True"
  have none: "Timeout (echo ''8.8.8.8'') = None" by (simp add: echo_def)
  from Provision_guards_timeout_read [of Logger "echo ''8.8.8.8''" ?e Background ?s] none
  have "GetIPs ?e Background (echo ''8.8.8.8'') ?s = ([], Panic NilTimeout)" by blast
  moreover have "Timeout (Provision Logger (echo ''8.8.8.8'')) = Some 30000000000"
    by (simp add: Provision_def echo_def Second_def)
  moreover have "snd (GetIPs ?e Background (Provision Logger (echo ''8.8.8.8'')) ?s)
     = Return (Inr [Addr4 0x08080808])" by code_simp
  ultimately show ?thesis by simp
qed

subsection \<open>The arguments and the executable\<close>

text \<open>
  C9: the arguments handed to the process spawner are as many as the argument templates
  and in their order, each the result of \<^verbatim>\<open>ReplaceAll\<close> on its template with the empty
  text as the value of an unresolved placeholder; nothing in the expansion can fail. The
  executable name is the configured command as it is, whatever the replacer would make of
  it. The operating system is asked for this one command only: two environments that
  agree on it give the same call.
\<close>

theorem arguments_expanded_command_kept:
  "ex_name (CommandContext e cx c) = Cmd c \<and>
   length (ex_args (CommandContext e cx c)) = length (Args c) \<and>
   (\<forall>i<length (Args c). ex_args (CommandContext e cx c) ! i = ReplaceAll e (Args c ! i) []) \<and>
   (\<forall>e'. ReplaceAll e' = ReplaceAll e \<and> ParseAddr e' = ParseAddr e \<and>
         AddrString e' = AddrString e \<and>
         Run e' (CommandContext e cx c) = Run e (CommandContext e cx c) \<longrightarrow>
         GetIPs e' cx c s = GetIPs e cx c s)"
  by (auto simp: CommandContext_def expandedArgs_def intro: GetIPs_cong[unfolded CommandContext_def expandedArgs_def])

theorem arguments_expanded_command_kept_witness:
  "ex_name (CommandContext
      ((test_env \<lparr>outcome = Exited 0, stdout = [], stderr = []\<rparr>)\<lparr>ReplaceAll := test_ReplaceAll\<rparr>)
      Background
      \<lparr>Cmd = ''{env.SHELL}'', Args = [''-c'', ''{env.SHELL}'', ''{env.NONE}''], Dir = [],
         Timeout = None, logger = None\<rparr>) = ''{env.SHELL}'' \<and>
   ex_args (CommandContext
      ((test_env \<lparr>outcome = Exited 0, stdout = [], stderr = []\<rparr>)\<lparr>ReplaceAll := test_ReplaceAll\<rparr>)
      Background
      \<lparr>Cmd = ''{env.SHELL}'', Args = [''-c'', ''{env.SHELL}'', ''{env.NONE}''], Dir = [],
         Timeout = None, logger = None\<rparr>) = [''-c'', ''/bin/sh'', []]"
proof -
  let ?e = "(test_env \<lparr>outcome = Exited 0, stdout = [], stderr = []\<rparr>)
              \<lparr>ReplaceAll := test_ReplaceAll\<rparr>"
  let ?c = "\<lparr>Cmd = ''{env.SHELL}'', Args = [''-c'', ''{env.SHELL}'', ''{env.NONE}''], Dir = [],
             Timeout = None, logger = None\<rparr>"
  let ?a = "ex_args (CommandContext ?e Background ?c)"
  from arguments_expanded_command_kept [of ?e Background ?c]
  have n: "ex_name (CommandContext ?e Background ?c) = Cmd ?c"
    and l: "length ?a = length (Args ?c)"
    and a: "\<forall>i<length (Args ?c). ?a ! i = ReplaceAll ?e (Args ?c ! i) []"
    by blast+
  have "?a = [''-c'', ''/bin/sh'', []]"
  proof (rule nth_equalityI)
    show "length ?a = length [''-c'', ''/bin/sh'', []]" using l by simp
  next
    fix i assume "i < length ?a"
    with l have i: "i = 0 \<or> i = 1 \<or> i = 2" by auto
    from a have "?a ! 0 = ''-c''" "?a ! 1 = ''/bin/sh''" "?a ! 2 = []"
      by (simp_all add: test_env_def test_ReplaceAll_def)
    with i show "?a ! i = [''-c'', ''/bin/sh'', []] ! i" by auto
  qed
  with n show ?thesis by simp
qed

subsection \<open>The exit status and the standard error\<close>

text \<open>The older copy turns the same run into a failure.\<close>

lemma GetIPs_legacy_stderr_fails:
  assumes "Llogger c = Some l"
    and "outcome (LRun e (CommandContext_legacy e cx c)) = Exited 0"
    and "stderr (LRun e (CommandContext_legacy e cx c)) \<noteq> []"
  shows "snd (GetIPs_legacy e cx c) = Return (Inl (ExitedWith (LCmd c) 0))"
  using assms by (simp add: GetIPs_legacy_def Let_def)

text \<open>
  C5: when the process exits with code 0 and has written to its standard error,
  \<^verbatim>\<open>GetIPs\<close> goes on to parse the standard output: its result is what the tokens of the
  output give, the same as for that run with an empty standard error, and its log is the
  log of that run with the one warning added after the first entry.
\<close>

theorem stderr_only_warns:
  assumes "Timeout c = Some t" and "logger c = Some l"
    and "outcome (Run e (CommandContext e cx c)) = Exited 0"
    and "stderr (Run e (CommandContext e cx c)) \<noteq> []"
  shows "snd (GetIPs e cx c s) =
           Return (case find (\<lambda>t. ParseAddr e t = None)
                          (tokens (stdout (Run e (CommandContext e cx c)))) of
                     Some bad \<Rightarrow> Inl (InvalidIP bad)
                   | None \<Rightarrow> Inr (filter (passes s) (map (\<lambda>t. the (ParseAddr e t))
                                  (tokens (stdout (Run e (CommandContext e cx c))))))) \<and>
         snd (GetIPs e cx c s) = snd (GetIPs (silent e) cx c s) \<and>
         fst (GetIPs e cx c s) =
           hd (fst (GetIPs (silent e) cx c s)) #
           (WarnLevel, ''command produced stderr output'',
              [zString ''command'' (Cmd c),
               zString ''stderr'' (stderr (Run e (CommandContext e cx c)))]) #
           tl (fst (GetIPs (silent e) cx c s))"
proof -
  let ?r = "Run e (CommandContext e cx c)"
  have cc: "CommandContext (silent e) cx c = CommandContext e cx c"
    by (rule CommandContext_cong) (simp add: silent_simps)
  have pl: "parseLoop (silent e) c s tx ps out lg = parseLoop e c s tx ps out lg"
    for tx ps out lg
    by (rule parseLoop_cong) (simp_all add: silent_simps)
  have xa: "expandedArgs (silent e) c = expandedArgs e c"
    by (simp add: expandedArgs_def silent_simps)
  have ok': "outcome (Run (silent e) (CommandContext (silent e) cx c)) = Exited 0"
    by (simp add: cc silent_simps assms(3))
  note u = GetIPs_exit_zero_unfold [OF assms(1-3), of s]
  note u' = GetIPs_exit_zero_unfold [OF assms(1,2) ok', of s]
  have res: "snd (GetIPs e cx c s) = snd (GetIPs (silent e) cx c s)"
    using GetIPs_exit_zero [OF assms(1-3), of s] GetIPs_exit_zero [OF assms(1,2) ok', of s]
    by (simp add: cc silent_simps split: option.split)
  have lg: "fst (GetIPs e cx c s) =
      (DebugLevel, ''running command'',
         [zString ''command'' (Cmd c), zStrings ''args'' (expandedArgs e c),
          zString ''dir'' (Dir c), zInt64 ''timeout'' (sint t)]) #
      (WarnLevel, ''command produced stderr output'',
         [zString ''command'' (Cmd c), zString ''stderr'' (stderr ?r)]) #
      fst (parseLoop e c s (stdout ?r) (Split (TrimSpace (stdout ?r)) (CHR '','')) [] [])"
    using parseLoop_log [of e c s "stdout ?r" "Split (TrimSpace (stdout ?r)) (CHR '','')" "[]"
        "[_, _]" "[]"] assms(4)
    by (simp add: u Let_def)
  have lg': "fst (GetIPs (silent e) cx c s) =
      (DebugLevel, ''running command'',
         [zString ''command'' (Cmd c), zStrings ''args'' (expandedArgs e c),
          zString ''dir'' (Dir c), zInt64 ''timeout'' (sint t)]) #
      fst (parseLoop e c s (stdout ?r) (Split (TrimSpace (stdout ?r)) (CHR '','')) [] [])"
    using parseLoop_log [of e c s "stdout ?r" "Split (TrimSpace (stdout ?r)) (CHR '','')" "[]"
        "[_]" "[]"]
    by (simp add: u' Let_def cc silent_simps pl xa)
  from GetIPs_exit_zero [OF assms(1-3), of s] res lg lg' show ?thesis by simp
qed

theorem stderr_only_warns_witness:
  "snd (GetIPs (test_env \<lparr>outcome = Exited 0, stdout = ''8.8.8.8'', stderr = ''slow network''\<rparr>)
          Background (Provision Logger (echo ''8.8.8.8'')) (createIPSettings True True))
     = Return (Inr [Addr4 0x08080808]) \<and>
   map fst (fst (GetIPs (test_env \<lparr>outcome = Exited 0, stdout = ''8.8.8.8'',
                                    stderr = ''slow network''\<rparr>)
          Background (Provision Logger (echo ''8.8.8.8'')) (createIPSettings True True)))
     = [DebugLevel, WarnLevel, DebugLevel]"
proof -
  let ?r = "\<lparr>outcome = Exited 0, stdout = ''8.8.8.8'', stderr = ''slow network''\<rparr>"
  let ?c = "Provision Logger (echo ''8.8.8.8'')"
  let ?s = "createIPSettings True True"
  have ok: "outcome (Run (test_env ?r) (CommandContext (test_env ?r) Background ?c)) = Exited 0"
    by (simp add: test_run)
  have err: "stderr (Run (test_env ?r) (CommandContext (test_env ?r) Background ?c)) \<noteq> []"
    by (simp add: test_run)
  have quiet: "snd (GetIPs (silent (test_env ?r)) Background ?c ?s) = Return (Inr [Addr4 0x08080808])"
    by code_simp
  have quiet_log: "map fst (fst (GetIPs (silent (test_env ?r)) Background ?c ?s))
      = [DebugLevel, DebugLevel]"
    by code_simp
  from stderr_only_warns [OF test_provisioned ok err, of ?s]
  have res: "snd (GetIPs (test_env ?r) Background ?c ?s)
        = snd (GetIPs (silent (test_env ?r)) Background ?c ?s)"
    and lg: "fst (GetIPs (test_env ?r) Background ?c ?s) =
        hd (fst (GetIPs (silent (test_env ?r)) Background ?c ?s)) #
        (WarnLevel, ''command produced stderr output'',
           [zString ''command'' (Cmd ?c),
            zString ''stderr'' (stderr (Run (test_env ?r) (CommandContext (test_env ?r) Background ?c)))]) #
        tl (fst (GetIPs (silent (test_env ?r)) Background ?c ?s))"
    by blast+
  from quiet_log obtain a b where ab: "fst (GetIPs (silent (test_env ?r)) Background ?c ?s) = [a, b]"
    "fst a = DebugLevel" "fst b = DebugLevel"
    by (auto simp: map_eq_Cons_conv)
  from res quiet lg ab show ?thesis by simp
qed

text \<open>
  C6: a process that exits with status 3. The error returned is the one of \<^verbatim>\<open>cmd.Run\<close>,
  an \<^verbatim>\<open>*exec.ExitError\<close> whose text is \<^verbatim>\<open>exit status 3\<close>; it is not the error of line
  137 that names the command and the exit code.
\<close>

theorem GetIPs_exit_status_3:
  "snd (GetIPs (test_env \<lparr>outcome = Exited 3, stdout = [], stderr = []\<rparr>) Background
         (Provision Logger
            \<lparr>Cmd = ''sh'', Args = [''-c'', ''exit 3''], Dir = [], Timeout = None, logger = None\<rparr>)
         (createIPSettings True True))
   = Return (Inl (RunError (ExitError 3)))"
  by code_simp

subsection \<open>Parsing and filtering\<close>

text \<open>
  C1: when every token of the output parses, \<^verbatim>\<open>GetIPs\<close> returns exactly the parsed
  addresses that pass both gates (the flag of the family and the range policy), in the
  order of the output, and no error. With the IPv4 family disabled no IPv4 address is
  returned, and likewise for IPv6.
\<close>

theorem GetIPs_filters_in_order:
  assumes "Timeout c = Some t" and "logger c = Some l"
    and "outcome (Run e (CommandContext e cx c)) = Exited 0"
    and "map (ParseAddr e) (tokens (stdout (Run e (CommandContext e cx c)))) = map Some addrs"
  shows "snd (GetIPs e cx c s) = Return (Inr (filter (passes s) addrs)) \<and>
         (IPv4 s = Some False \<longrightarrow> filter Is4 (filter (passes s) addrs) = []) \<and>
         (IPv6 s = Some False \<longrightarrow> filter Is6 (filter (passes s) addrs) = [])"
proof (intro conjI impI)
  let ?toks = "tokens (stdout (Run e (CommandContext e cx c)))"
  from assms(4) have all: "\<forall>t\<in>set ?toks. ParseAddr e t \<noteq> None"
    by (metis imageI list.set_map option.distinct(1) imageE)
  then have f: "find (\<lambda>t. ParseAddr e t = None) ?toks = None"
    by (simp add: find_None_iff)
  have "map (\<lambda>t. the (ParseAddr e t)) ?toks = map the (map (ParseAddr e) ?toks)" by simp
  also have "\<dots> = addrs" by (simp add: assms(4) comp_def)
  finally have m: "map (\<lambda>t. the (ParseAddr e t)) ?toks = addrs" .
  from GetIPs_exit_zero[OF assms(1-3), of s] f m
  show "snd (GetIPs e cx c s) = Return (Inr (filter (passes s) addrs))" by simp
next
  assume "IPv4 s = Some False"
  then show "filter Is4 (filter (passes s) addrs) = []"
    by (auto simp: filter_empty_conv passes_def V4Enabled_def)
next
  assume "IPv6 s = Some False"
  then have "\<And>a. Is6 a \<Longrightarrow> \<not> passes s a"
    subgoal for a by (cases a) (auto simp: passes_def V6Enabled_def) done
  then show "filter Is6 (filter (passes s) addrs) = []"
    by (auto simp: filter_empty_conv)
qed

theorem GetIPs_filters_in_order_witness:
  "snd (GetIPs (test_env \<lparr>outcome = Exited 0,
                  stdout = ''192.168.1.1,8.8.8.8,2001:4860:4860::8888'', stderr = []\<rparr>)
          Background (Provision Logger (echo ''192.168.1.1,8.8.8.8,2001:4860:4860::8888''))
          (createIPSettings True False))
     = Return (Inr [Addr4 0x08080808]) \<and>
   snd (GetIPs (test_env \<lparr>outcome = Exited 0,
                  stdout = ''192.168.1.1,8.8.8.8,2001:4860:4860::8888'', stderr = []\<rparr>)
          Background (Provision Logger (echo ''192.168.1.1,8.8.8.8,2001:4860:4860::8888''))
          (createIPSettings False True))
     = Return (Inr [Addr6 0x20014860486000000000000000008888 []])"
proof -
  let ?r = "\<lparr>outcome = Exited 0, stdout = ''192.168.1.1,8.8.8.8,2001:4860:4860::8888'',
             stderr = []\<rparr>"
  let ?c = "Provision Logger (echo ''192.168.1.1,8.8.8.8,2001:4860:4860::8888'')"
  let ?addrs = "[Addr4 0xC0A80101, Addr4 0x08080808, Addr6 0x20014860486000000000000000008888 []]"
  have ok: "outcome (Run (test_env ?r) (CommandContext (test_env ?r) Background ?c)) = Exited 0"
    by (simp add: test_run)
  have "map test_ParseAddr (tokens ''192.168.1.1,8.8.8.8,2001:4860:4860::8888'') = map Some ?addrs"
    by code_simp
  then have toks: "map (ParseAddr (test_env ?r))
      (tokens (stdout (Run (test_env ?r) (CommandContext (test_env ?r) Background ?c))))
      = map Some ?addrs"
    by (simp add: test_run test_ParseAddr)
  have f4: "filter (passes (createIPSettings True False)) ?addrs = [Addr4 0x08080808]"
    by code_simp
  have f6: "filter (passes (createIPSettings False True)) ?addrs
      = [Addr6 0x20014860486000000000000000008888 []]"
    by code_simp
  from GetIPs_filters_in_order [OF test_provisioned ok toks, of "createIPSettings True False"]
    GetIPs_filters_in_order [OF test_provisioned ok toks, of "createIPSettings False True"]
  show ?thesis by (simp only: f4 f6)
qed

text \<open>
  C3: parsing is all or nothing. If a token (trimmed, not empty) fails to parse, the call
  returns the one error that names the first such token, and no list, also when tokens
  before it were valid.
\<close>

theorem GetIPs_all_or_nothing:
  assumes "Timeout c = Some t" and "logger c = Some l"
    and "outcome (Run e (CommandContext e cx c)) = Exited 0"
    and "find (\<lambda>t. ParseAddr e t = None) (tokens (stdout (Run e (CommandContext e cx c)))) = Some bad"
  shows "snd (GetIPs e cx c s) = Return (Inl (InvalidIP bad))"
  using GetIPs_exit_zero[OF assms(1-3), of s] assms(4) by simp

theorem GetIPs_all_or_nothing_witness:
  "snd (GetIPs (test_env \<lparr>outcome = Exited 0,
                  stdout = ''8.8.8.8, invalid-ip ,2001:4860:4860::8888,also-bad'', stderr = []\<rparr>)
          Background (Provision Logger (echo ''8.8.8.8, invalid-ip ,2001:4860:4860::8888,also-bad''))
          (createIPSettings True True))
     = Return (Inl (InvalidIP ''invalid-ip''))"
proof -
  let ?r = "\<lparr>outcome = Exited 0,
             stdout = ''8.8.8.8, invalid-ip ,2001:4860:4860::8888,also-bad'', stderr = []\<rparr>"
  let ?c = "Provision Logger (echo ''8.8.8.8, invalid-ip ,2001:4860:4860::8888,also-bad'')"
  have ok: "outcome (Run (test_env ?r) (CommandContext (test_env ?r) Background ?c)) = Exited 0"
    by (simp add: test_run)
  have "find (\<lambda>t. test_ParseAddr t = None)
          (tokens ''8.8.8.8, invalid-ip ,2001:4860:4860::8888,also-bad'') = Some ''invalid-ip''"
    by code_simp
  then have bad: "find (\<lambda>t. ParseAddr (test_env ?r) t = None)
      (tokens (stdout (Run (test_env ?r) (CommandContext (test_env ?r) Background ?c))))
      = Some ''invalid-ip''"
    by (simp add: test_run test_ParseAddr)
  from GetIPs_all_or_nothing [OF test_provisioned ok bad] show ?thesis .
qed

text \<open>
  C4: an output that yields no token gives the empty list and no error; so does, in
  particular, every output made of commas and runes of white space only, the empty text
  and a text of white space among them.
\<close>

theorem GetIPs_no_tokens:
  assumes "Timeout c = Some t" and "logger c = Some l"
    and "outcome (Run e (CommandContext e cx c)) = Exited 0"
    and "tokens (stdout (Run e (CommandContext e cx c))) = [] \<or>
         (\<exists>ws. set ws \<subseteq> insert '','' (set spaces) \<and>
               stdout (Run e (CommandContext e cx c)) = concat ws)"
  shows "snd (GetIPs e cx c s) = Return (Inr [])"
proof -
  from assms(4) have "tokens (stdout (Run e (CommandContext e cx c))) = []"
    by (auto simp: tokens_commas_and_spaces)
  with GetIPs_exit_zero [OF assms(1-3), of s] show ?thesis by simp
qed

theorem GetIPs_no_tokens_witness:
  "snd (GetIPs (test_env \<lparr>outcome = Exited 0, stdout = [], stderr = []\<rparr>)
          Background (Provision Logger (echo [])) (createIPSettings True True))
     = Return (Inr []) \<and>
   snd (GetIPs (test_env \<lparr>outcome = Exited 0, stdout = [CHR 0x0A], stderr = []\<rparr>)
          Background (Provision Logger (echo [])) (createIPSettings True True))
     = Return (Inr []) \<and>
   snd (GetIPs (test_env \<lparr>outcome = Exited 0, stdout = '' , ,,  '' @ [CHR 0x09, CHR 0x0A],
                  stderr = []\<rparr>)
          Background (Provision Logger (echo [])) (createIPSettings True True))
     = Return (Inr [])"
proof -
  let ?c = "Provision Logger (echo [])"
  have ok: "outcome (Run (test_env \<lparr>outcome = Exited 0, stdout = x, stderr = []\<rparr>)
      (CommandContext (test_env \<lparr>outcome = Exited 0, stdout = x, stderr = []\<rparr>) Background ?c))
      = Exited 0" for x
    by (simp add: test_run)
  have t1: "tokens [] = []" by code_simp
  have t2: "tokens [CHR 0x0A] = []" by code_simp
  have toks: "tokens x = [] \<Longrightarrow>
      tokens (stdout (Run (test_env \<lparr>outcome = Exited 0, stdout = x, stderr = []\<rparr>)
        (CommandContext (test_env \<lparr>outcome = Exited 0, stdout = x, stderr = []\<rparr>) Background ?c)))
      = [] \<or>
      (\<exists>ws. set ws \<subseteq> insert '','' (set spaces) \<and>
         stdout (Run (test_env \<lparr>outcome = Exited 0, stdout = x, stderr = []\<rparr>)
           (CommandContext (test_env \<lparr>outcome = Exited 0, stdout = x, stderr = []\<rparr>) Background ?c))
         = concat ws)" for x
    by (simp add: test_run)
  let ?x = "'' , ,,  '' @ [CHR 0x09, CHR 0x0A]"
  let ?ws = "['' '', '','', '' '', '','', '','', '' '', '' '', [CHR 0x09], [CHR 0x0A]]"
  have "set ?ws \<subseteq> insert '','' (set spaces)" by (simp add: spaces_def)
  moreover have "?x = concat ?ws" by simp
  ultimately have t3:
    "tokens (stdout (Run (test_env \<lparr>outcome = Exited 0, stdout = ?x, stderr = []\<rparr>)
        (CommandContext (test_env \<lparr>outcome = Exited 0, stdout = ?x, stderr = []\<rparr>) Background ?c)))
      = [] \<or>
      (\<exists>ws. set ws \<subseteq> insert '','' (set spaces) \<and>
         stdout (Run (test_env \<lparr>outcome = Exited 0, stdout = ?x, stderr = []\<rparr>)
           (CommandContext (test_env \<lparr>outcome = Exited 0, stdout = ?x, stderr = []\<rparr>) Background ?c))
         = concat ws)"
    unfolding test_run execution.simps by blast
  from GetIPs_no_tokens [OF test_provisioned ok toks [OF t1]]
    GetIPs_no_tokens [OF test_provisioned ok toks [OF t2]]
    GetIPs_no_tokens [OF test_provisioned ok t3]
  show ?thesis by simp
qed

text \<open>
  C2, amended: the output is a list of N address literals joined with commas, with any
  white space (runes of \<open>spaces\<close>) before and after each literal and around the whole
  text, where a literal is a text that the parser accepts, with no comma in it and no
  white space of its own at its ends. Then the tokens handed to the parser are exactly the
  N literals in their order, every one parses, and the call returns their addresses,
  filtered by the settings, and all of them when the settings let every address pass.
  Nothing on the right-hand sides mentions the white space.
\<close>

theorem GetIPs_reads_padded_list:
  assumes "Timeout c = Some t" and "logger c = Some lgr"
    and "outcome (Run e (CommandContext e cx c)) = Exited 0"
    and "stdout (Run e (CommandContext e cx c))
           = concat L @ Join (map padded items) '','' @ concat R"
    and "set L \<subseteq> set spaces" and "set R \<subseteq> set spaces"
    and "\<forall>(l, t, r)\<in>set items. set l \<subseteq> set spaces \<and> set r \<subseteq> set spaces \<and> literal e t"
  shows "tokens (stdout (Run e (CommandContext e cx c))) = map (\<lambda>(l, t, r). t) items \<and>
         snd (GetIPs e cx c s) =
           Return (Inr (filter (passes s) (map (\<lambda>(l, t, r). the (ParseAddr e t)) items))) \<and>
         ((\<forall>a. passes s a) \<longrightarrow>
           snd (GetIPs e cx c s) = Return (Inr (map (\<lambda>(l, t, r). the (ParseAddr e t)) items)))"
proof -
  let ?out = "stdout (Run e (CommandContext e cx c))"
  from assms(7) have wp: "list_all wellPadded items"
    by (auto simp: list_all_iff wellPadded_def literal_def)
  from assms(7) have ne: "\<forall>i\<in>set items. fst (snd i) \<noteq> []"
    by (auto simp: literal_def)
  from assms(7) have ok: "\<forall>i\<in>set items. ParseAddr e (fst (snd i)) \<noteq> None"
    by (auto simp: literal_def)
  have "tokens ?out = filter (\<lambda>t. t \<noteq> []) (map (fst \<circ> snd) items)"
    using tokens_text [OF wp assms(5,6)] assms(4) by simp
  also have "\<dots> = map (fst \<circ> snd) items" using ne by (simp add: filter_id_conv)
  finally have toks: "tokens ?out = map (fst \<circ> snd) items" .
  have "find (\<lambda>t. ParseAddr e t = None) (tokens ?out) = None"
    using ok by (simp add: toks find_None_iff)
  with GetIPs_exit_zero [OF assms(1-3), of s]
  have res: "snd (GetIPs e cx c s) =
      Return (Inr (filter (passes s) (map (\<lambda>i. the (ParseAddr e (fst (snd i)))) items)))"
    by (simp add: toks comp_def)
  have m: "map (\<lambda>i. the (ParseAddr e (fst (snd i)))) items
      = map (\<lambda>(l, t, r). the (ParseAddr e t)) items"
    by (rule map_cong) auto
  have t': "map (fst \<circ> snd) items = map (\<lambda>(l, t, r). t) items"
    by (rule map_cong) auto
  from toks res show ?thesis by (simp add: m t')
qed

theorem GetIPs_reads_padded_list_witness:
  "snd (GetIPs (test_env \<lparr>outcome = Exited 0,
                  stdout = '' 8.8.8.8 , 2001:4860:4860::8888 '' @ [CHR 0xC2, CHR 0xA0, CHR 0x0A],
                  stderr = []\<rparr>)
          Background (Provision Logger (echo '' 8.8.8.8 , 2001:4860:4860::8888 ''))
          (createIPSettings True True))
     = Return (Inr [Addr4 0x08080808, Addr6 0x20014860486000000000000000008888 []])"
proof -
  let ?r = "\<lparr>outcome = Exited 0,
             stdout = '' 8.8.8.8 , 2001:4860:4860::8888 '' @ [CHR 0xC2, CHR 0xA0, CHR 0x0A],
             stderr = []\<rparr>"
  let ?e = "test_env ?r"
  let ?c = "Provision Logger (echo '' 8.8.8.8 , 2001:4860:4860::8888 '')"
  let ?s = "createIPSettings True True"
  let ?L = "['' '']"
  let ?R = "['' '', [CHR 0xC2, CHR 0xA0], [CHR 0x0A]]"
  let ?items = "[([], ''8.8.8.8'', ['' '']), (['' ''], ''2001:4860:4860::8888'', [])]"
  have ok: "outcome (Run ?e (CommandContext ?e Background ?c)) = Exited 0"
    by (simp add: test_run)
  have out: "stdout (Run ?e (CommandContext ?e Background ?c))
      = concat ?L @ Join (map padded ?items) '','' @ concat ?R"
    by (simp add: test_run padded_def)
  have L: "set ?L \<subseteq> set spaces" and R: "set ?R \<subseteq> set spaces"
    by (simp_all add: spaces_def)
  have lits: "\<forall>(l, t, r)\<in>set ?items. set l \<subseteq> set spaces \<and> set r \<subseteq> set spaces \<and> literal ?e t"
    by code_simp
  have f: "filter (passes ?s) (map (\<lambda>(l, t, r). the (ParseAddr ?e t)) ?items)
      = [Addr4 0x08080808, Addr6 0x20014860486000000000000000008888 []]"
    by code_simp
  from GetIPs_reads_padded_list [OF test_provisioned ok out L R lits, of ?s]
  show ?thesis by (simp only: f)
qed

text \<open>
  C2 as it is stated, for every literal that the parser accepts, fails on a zone: the
  one literal \<^verbatim>\<open>fe80::1%a,b\<close> is split at its comma and the call fails on the second
  piece; the one literal \<^verbatim>\<open>fe80::1%a\<close> with a space at its end loses the space, and the
  address returned has another zone than the literal's.
\<close>

theorem padded_list_counterexample:
  "zone_ParseAddr ''fe80::1%a,b'' = Some (Addr6 0xFE800000000000000000000000000001 ''a,b'') \<and>
   Join [''fe80::1%a,b''] '','' = ''fe80::1%a,b'' \<and>
   snd (GetIPs (zone_env ''fe80::1%a,b'') Background (Provision Logger (echo ''fe80::1%a,b''))
          (createIPSettings True True))
     = Return (Inl (InvalidIP ''b'')) \<and>
   zone_ParseAddr ''fe80::1%a '' = Some (Addr6 0xFE800000000000000000000000000001 ''a '') \<and>
   snd (GetIPs (zone_env ''fe80::1%a '') Background (Provision Logger (echo ''fe80::1%a ''))
          (createIPSettings True True))
     = Return (Inr [Addr6 0xFE800000000000000000000000000001 ''a''])"
  by code_simp

end
